theory Spec2Isabelle
  imports Main "HOL-Library.Sublist" "HOL-Library.Char_ord" "HOL-Library.List_Lexorder"
    "HOL-Library.Product_Lexorder" "HOL-Library.Multiset"
begin

section \<open>Strings\<close>

text \<open>
  Type identifiers, attribute names and relationship labels are Python \<open>str\<close> values; they
  are modelled as HOL strings, a character standing for the code point of the same number
  (below 256). On these the functions below agree with Python's \<open>str.endswith\<close>, \<open>in\<close>,
  \<open>str.lower\<close>, \<open>str.isalnum\<close>, \<open>str.rstrip\<close>, \<open>str.split\<close> and \<open>str.join\<close>;
  \<open>upper\<close> agrees with \<open>str.upper\<close> except on the code points 181, 223 and 255, whose
  upper-case forms are not single code points below 256 and which it leaves unchanged.
  The order on strings is the lexicographic order on character codes, as Python's \<open><\<close>
  on \<open>str\<close>.
\<close>

definition endswith :: "string \<Rightarrow> string \<Rightarrow> bool" where
  "endswith s suf = (length suf \<le> length s \<and> drop (length s - length suf) s = suf)"

definition startswith :: "string \<Rightarrow> string \<Rightarrow> bool" where
  "startswith s pre = (take (length pre) s = pre)"

text \<open>\<open>pattern in s\<close>: some position of \<open>s\<close> starts with \<open>pattern\<close>.\<close>

fun contains :: "string \<Rightarrow> string \<Rightarrow> bool" where
  "contains [] pattern = (pattern = [])"
| "contains (c # s) pattern = (startswith (c # s) pattern \<or> contains s pattern)"

definition code_in :: "char \<Rightarrow> nat \<Rightarrow> nat \<Rightarrow> bool" where
  "code_in c lo hi = (lo \<le> of_char c \<and> of_char c \<le> hi)"

definition lower_char :: "char \<Rightarrow> char" where
  "lower_char c =
     (if code_in c 65 90 \<or> code_in c 192 214 \<or> code_in c 216 222
      then char_of (of_char c + (32::nat)) else c)"

definition upper_char :: "char \<Rightarrow> char" where
  "upper_char c =
     (if code_in c 97 122 \<or> code_in c 224 246 \<or> code_in c 248 254
      then char_of (of_char c - (32::nat)) else c)"

definition lower :: "string \<Rightarrow> string" where
  "lower s = map lower_char s"

definition upper :: "string \<Rightarrow> string" where
  "upper s = map upper_char s"

definition isalnum :: "char \<Rightarrow> bool" where
  "isalnum c =
     (code_in c 48 57 \<or> code_in c 65 90 \<or> code_in c 97 122
      \<or> code_in c 170 170 \<or> code_in c 178 179 \<or> code_in c 181 181 \<or> code_in c 185 186
      \<or> code_in c 188 190 \<or> code_in c 192 214 \<or> code_in c 216 246 \<or> code_in c 248 255)"

definition isspace :: "char \<Rightarrow> bool" where
  "isspace c =
     (code_in c 9 13 \<or> code_in c 28 32 \<or> code_in c 133 133 \<or> code_in c 160 160)"

definition rstrip :: "string \<Rightarrow> string" where
  "rstrip s = rev (dropWhile isspace (rev s))"

text \<open>\<open>sep.join(xs)\<close>.\<close>

fun join :: "string \<Rightarrow> string list \<Rightarrow> string" where
  "join sep [] = []"
| "join sep [x] = x"
| "join sep (x # y # ys) = x @ sep @ join sep (y # ys)"

text \<open>\<open>s.split("_")[-1]\<close>: the segment after the last underscore, all of \<open>s\<close> if it has none.\<close>

definition last_segment :: "string \<Rightarrow> string" where
  "last_segment s = rev (takeWhile (\<lambda>c. c \<noteq> CHR ''_'') (rev s))"

section \<open>The plain variant: data-model-schema-graphql.py\<close>

subsection \<open>Attribute type inference (determine_graphql_type)\<close>

definition type_mapping :: "string \<rightharpoonup> string" where
  "type_mapping = map_of
     [(''string'', ''String''), (''integer'', ''Int''), (''int'', ''Int''),
      (''float'', ''Float''), (''number'', ''Float''), (''boolean'', ''Boolean''),
      (''date'', ''String''), (''datetime'', ''String'')]"

definition numeric_patterns :: "string list" where
  "numeric_patterns =
     [''age_at_'', ''number_of_'', ''_count'', ''_size'', ''_length'',
      ''coverage'', ''avg_read_length'', ''number_of_bp'', ''number_of_reads'',
      ''vaf_numeric'', ''test_result_numeric'', ''passage_number'',
      ''magnetic_field_strength'', ''repetition_time'', ''echo_time'',
      ''inversion_time'', ''flip_angle'', ''pixel_spacing'', ''slice_thickness'',
      ''magnification'', ''participant_age_'', ''year_of_'', ''pack_years_'',
      ''years_'', ''cigarettes_per_day'', ''alcohol_days_per_week'',
      ''alcohol_drinks_per_day'']"

definition boolean_patterns :: "string list" where
  "boolean_patterns = [''indicator'', ''_flag'', ''is_'', ''has_'']"

text \<open>
  The loop \<open>for pattern in patterns: if pattern in prop_lower: return ...\<close>; \<open>True\<close> when
  the loop returns, \<open>False\<close> when it falls through.
\<close>

fun any_pattern_in :: "string list \<Rightarrow> string \<Rightarrow> bool" where
  "any_pattern_in [] prop_lower = False"
| "any_pattern_in (pattern # patterns) prop_lower =
     (if contains prop_lower pattern then True else any_pattern_in patterns prop_lower)"

text \<open>
  \<open>prop_def\<close> is the attribute's \<open>Type\<close> entry rendered by \<open>str\<close>; \<open>None\<close> when the
  definition is empty, has no \<open>Type\<close> key, or the key holds \<open>None\<close>.
\<close>

definition determine_graphql_type :: "string \<Rightarrow> string option \<Rightarrow> string" where
  "determine_graphql_type prop_name prop_def =
     (case prop_def of
        Some ty \<Rightarrow> (case type_mapping (lower ty) of Some t \<Rightarrow> t | None \<Rightarrow> ''String'')
      | None \<Rightarrow>
          if endswith prop_name ''_id'' \<or> prop_name = ''id'' then ''String''
          else if any_pattern_in numeric_patterns (lower prop_name) then ''Int''
          else if any_pattern_in boolean_patterns (lower prop_name) then ''Boolean''
          else ''String'')"

subsection \<open>Relationship facts (build_relationship_map)\<close>

text \<open>A directed fact as stored per node: (rel_type, target_node, direction).\<close>

type_synonym rel_fact = "string \<times> string \<times> string"

text \<open>
  The \<open>Relationships\<close> section in document order: each relationship name with its
  \<open>Ends\<close> list of (Src, Dst) pairs, \<open>None\<close> for an empty definition or one without
  \<open>Ends\<close>.
\<close>

type_synonym relationships = "(string \<times> (string \<times> string) list option) list"

definition append_fact :: "string \<Rightarrow> rel_fact \<Rightarrow> (string \<rightharpoonup> rel_fact list) \<Rightarrow> (string \<rightharpoonup> rel_fact list)" where
  "append_fact node f m =
     (let m' = (if m node = None then m(node \<mapsto> []) else m)
      in m'(node \<mapsto> the (m' node) @ [f]))"

fun add_ends :: "string \<Rightarrow> (string \<times> string) list \<Rightarrow> (string \<rightharpoonup> rel_fact list) \<Rightarrow> (string \<rightharpoonup> rel_fact list)" where
  "add_ends rel_name [] m = m"
| "add_ends rel_name ((src_node, dst_node) # ends) m =
     add_ends rel_name ends
       (append_fact dst_node (rel_name, src_node, ''IN'')
         (append_fact src_node (rel_name, dst_node, ''OUT'') m))"

fun build_relationship_map_from :: "relationships \<Rightarrow> (string \<rightharpoonup> rel_fact list) \<Rightarrow> (string \<rightharpoonup> rel_fact list)" where
  "build_relationship_map_from [] m = m"
| "build_relationship_map_from ((rel_name, rel_def) # rest) m =
     (case rel_def of
        None \<Rightarrow> build_relationship_map_from rest m
      | Some ends \<Rightarrow> build_relationship_map_from rest (add_ends rel_name ends m))"

definition build_relationship_map :: "relationships \<Rightarrow> (string \<rightharpoonup> rel_fact list)" where
  "build_relationship_map rels = build_relationship_map_from rels Map.empty"

subsection \<open>Relationship fields of one node type (generate_node_type)\<close>

text \<open>
  One emitted relationship line: the field name, the target type, the relationship type
  and the direction that are interpolated into it.
\<close>

record compiled_field =
  field_name :: string
  target :: string
  rel_type :: string
  direction :: string

definition rel_key :: "string \<Rightarrow> string \<Rightarrow> string \<Rightarrow> string" where
  "rel_key rt target_node dir = rt @ ''_'' @ target_node @ ''_'' @ dir"

text \<open>The field name computed from the adjacent type, as both passes compute it.\<close>

definition plural_field_name :: "string \<Rightarrow> string \<Rightarrow> string" where
  "plural_field_name node_name target_node =
     (if \<not> endswith target_node ''s'' \<and> target_node \<noteq> node_name then
        (if endswith target_node ''y'' then butlast target_node @ ''ies''
         else if endswith target_node ''s'' then target_node
         else target_node @ ''s'')
      else target_node)"

record emit_state =
  added_relationships :: "string set"
  added_field_names :: "string set"
  rel_lines :: "compiled_field list"

fun out_pass :: "string \<Rightarrow> rel_fact list \<Rightarrow> emit_state \<Rightarrow> emit_state" where
  "out_pass node_name [] st = st"
| "out_pass node_name ((rt, target_node, dir) # rest) st =
     (if dir \<noteq> ''OUT'' then out_pass node_name rest st
      else if rel_key rt target_node dir \<in> added_relationships st then out_pass node_name rest st
      else out_pass node_name rest
             \<lparr>added_relationships = insert (rel_key rt target_node dir) (added_relationships st),
              added_field_names = insert (plural_field_name node_name target_node) (added_field_names st),
              rel_lines = rel_lines st @
                [\<lparr>field_name = plural_field_name node_name target_node, target = target_node,
                  rel_type = rt, direction = dir\<rparr>]\<rparr>)"

fun in_pass :: "string \<Rightarrow> rel_fact list \<Rightarrow> emit_state \<Rightarrow> emit_state" where
  "in_pass node_name [] st = st"
| "in_pass node_name ((rt, target_node, dir) # rest) st =
     (if dir \<noteq> ''IN'' then in_pass node_name rest st
      else if rel_key rt target_node dir \<in> added_relationships st then in_pass node_name rest st
      else if plural_field_name node_name target_node \<in> added_field_names st then
        in_pass node_name rest
          (st\<lparr>added_relationships := insert (rel_key rt target_node dir) (added_relationships st)\<rparr>)
      else in_pass node_name rest
             \<lparr>added_relationships = insert (rel_key rt target_node dir) (added_relationships st),
              added_field_names = insert (plural_field_name node_name target_node) (added_field_names st),
              rel_lines = rel_lines st @
                [\<lparr>field_name = plural_field_name node_name target_node, target = target_node,
                  rel_type = rt, direction = dir\<rparr>]\<rparr>)"

definition init_state :: emit_state where
  "init_state = \<lparr>added_relationships = {}, added_field_names = {}, rel_lines = []\<rparr>"

text \<open>\<open>relationship_map.get(node_name, [])\<close>.\<close>

definition facts_of :: "(string \<rightharpoonup> rel_fact list) \<Rightarrow> string \<Rightarrow> rel_fact list" where
  "facts_of relationship_map node_name =
     (case relationship_map node_name of None \<Rightarrow> [] | Some fs \<Rightarrow> fs)"


definition relationship_fields :: "string \<Rightarrow> rel_fact list \<Rightarrow> compiled_field list" where
  "relationship_fields node_name node_relationships =
     rel_lines (in_pass node_name node_relationships (out_pass node_name node_relationships init_state))"

definition render_field :: "compiled_field \<Rightarrow> string" where
  "render_field f =
     ''  '' @ field_name f @ '': ['' @ target f @ ''!]! @relationship(type: \"'' @ rel_type f
       @ ''\", direction: '' @ direction f @ '')''"

text \<open>
  \<open>props\<close> is the node's \<open>Props\<close> list (empty when absent); \<open>prop_definitions\<close> gives each
  attribute's \<open>Type\<close> where the props file has one.
\<close>

definition generate_node_type ::
  "string \<Rightarrow> string list \<Rightarrow> (string \<rightharpoonup> rel_fact list) \<Rightarrow> (string \<rightharpoonup> string) \<Rightarrow> string" where
  "generate_node_type node_name props relationship_map prop_definitions =
     join ''\<newline>''
       ([''type '' @ node_name @ '' {'']
        @ map (\<lambda>prop_name. ''  '' @ prop_name @ '': '' @ determine_graphql_type prop_name (prop_definitions prop_name)) props
        @ map render_field (relationship_fields node_name (facts_of relationship_map node_name))
        @ [''}'', ''''])"

subsection \<open>The document (process_ccdi_model, main)\<close>

text \<open>
  \<open>nodes\<close> is the \<open>Nodes\<close> section in document order, each node name with its \<open>Props\<close>
  list. \<open>main\<close> writes the schema with \<open>print\<close>, which adds a newline.
\<close>

definition process_ccdi_model ::
  "(string \<times> string list) list \<Rightarrow> relationships \<Rightarrow> (string \<rightharpoonup> string) \<Rightarrow> string" where
  "process_ccdi_model nodes rels prop_definitions =
     join ''\<newline>''
       ([''#graphql'', '''', ''# Type for field count results'', ''type FieldCount {'',
         ''  field: String!'', ''  count: Int!'', ''}'', '''']
        @ map (\<lambda>(node_name, props).
                 generate_node_type node_name props (build_relationship_map rels) prop_definitions) nodes)"

definition main_output ::
  "(string \<times> string list) list \<Rightarrow> relationships \<Rightarrow> (string \<rightharpoonup> string) \<Rightarrow> string" where
  "main_output nodes rels prop_definitions = process_ccdi_model nodes rels prop_definitions @ ''\<newline>''"

section \<open>The JSON variant: memgraph-schema-graphql.py\<close>

text \<open>
  Its \<open>generate_node_type\<close> walks the node's facts once, in list order; only the
  relationship key is tracked.
\<close>

fun memgraph_pass :: "string \<Rightarrow> rel_fact list \<Rightarrow> string set \<Rightarrow> compiled_field list" where
  "memgraph_pass node_label [] added = []"
| "memgraph_pass node_label ((rt, target_label, dir) # rest) added =
     (if rel_key rt target_label dir \<in> added then memgraph_pass node_label rest added
      else \<lparr>field_name = plural_field_name node_label target_label, target = target_label,
             rel_type = rt, direction = dir\<rparr>
           # memgraph_pass node_label rest (insert (rel_key rt target_label dir) added))"

definition memgraph_relationship_fields :: "string \<Rightarrow> rel_fact list \<Rightarrow> compiled_field list" where
  "memgraph_relationship_fields node_label node_relationships = memgraph_pass node_label node_relationships {}"

text \<open>\<open>determine_field_type\<close> returns \<open>String\<close> for every property.\<close>

definition generate_node_type_memgraph :: "string \<Rightarrow> string list \<Rightarrow> rel_fact list \<Rightarrow> string" where
  "generate_node_type_memgraph node_label prop_keys node_relationships =
     join ''\<newline>''
       ([''type '' @ node_label @ '' {'']
        @ map (\<lambda>prop_key. ''  '' @ prop_key @ '': String'') prop_keys
        @ map render_field (memgraph_relationship_fields node_label node_relationships)
        @ [''}'', ''''])"

section \<open>The metadata-driven variant: data-model-schema-graphql-mdf.py\<close>

text \<open>
  The model objects come from the bento-meta library: a model has a handle, nodes keyed
  by handle and edges; an edge has a handle and the handles of its source and
  destination nodes; a node has a handle and properties keyed by handle; a property has
  a value domain and, for lists, an item domain.
\<close>

record property =
  value_domain :: "string option"
  item_domain :: "string option"

record node =
  node_handle :: string
  props :: "(string \<times> property) list"

record edge =
  edge_handle :: string
  src_handle :: string
  dst_handle :: string

record model =
  model_handle :: string
  nodes :: "node list"
  edges :: "edge list"

subsection \<open>Attribute type mapping (map_value_domain_to_graphql)\<close>

definition scalar_map :: "string \<rightharpoonup> string" where
  "scalar_map = map_of
     [(''string'', ''String''), (''regexp'', ''String''), (''value_set'', ''String''),
      (''integer'', ''Int''), (''int'', ''Int''), (''float'', ''Float''),
      (''number'', ''Float''), (''double'', ''Float''), (''boolean'', ''Boolean''),
      (''bool'', ''Boolean'')]"

definition scalar_or_string :: "string \<Rightarrow> string" where
  "scalar_or_string d = (case scalar_map d of Some t \<Rightarrow> t | None \<Rightarrow> ''String'')"

definition map_value_domain_to_graphql :: "property \<Rightarrow> string" where
  "map_value_domain_to_graphql prop =
     (let domain = lower (case value_domain prop of None \<Rightarrow> '''' | Some d \<Rightarrow> d);
          item = lower (case item_domain prop of None \<Rightarrow> '''' | Some i \<Rightarrow> i)
      in if domain = ''list'' then
           ''['' @ (if item \<noteq> '''' then scalar_or_string item else ''String'') @ '']''
         else scalar_or_string domain)"

subsection \<open>Relationship field names (singularize, build_relationship_fields)\<close>

definition singularize :: "string \<Rightarrow> string" where
  "singularize name =
     (if endswith name ''ies'' then take (length name - 3) name @ ''y''
      else if endswith name ''ses'' then take (length name - 2) name
      else if endswith name ''s'' \<and> \<not> endswith name ''ss'' then take (length name - 1) name
      else name)"

text \<open>\<open>str(n)\<close> for a natural number.\<close>

fun str_nat :: "nat \<Rightarrow> string" where
  "str_nat n = (if n < 10 then [char_of (48 + n)] else str_nat (n div 10) @ [char_of (48 + n mod 10)])"

declare str_nat.simps [simp del]

record name_state =
  used :: "string \<rightharpoonup> nat"
  rels :: "(string \<times> string \<times> string) list"

text \<open>One loop body: count the base name, suffix the counter from the second use on.\<close>

definition add_field :: "string \<Rightarrow> string \<Rightarrow> string \<Rightarrow> name_state \<Rightarrow> name_state" where
  "add_field base adjacent dir st =
     (let idx = (case used st base of None \<Rightarrow> 0 | Some i \<Rightarrow> i);
          fname = (if idx = 0 then base else base @ ''_'' @ str_nat (idx + 1))
      in \<lparr>used = (used st)(base \<mapsto> idx + 1), rels = rels st @ [(fname, adjacent, dir)]\<rparr>)"

fun out_edges :: "string \<Rightarrow> edge list \<Rightarrow> name_state \<Rightarrow> name_state" where
  "out_edges h [] st = st"
| "out_edges h (e # es) st =
     (if src_handle e = h then
        out_edges h es
          (add_field (lower (singularize (dst_handle e)) @ ''_'' @ lower (edge_handle e)) (dst_handle e) ''OUT'' st)
      else out_edges h es st)"

fun in_edges :: "string \<Rightarrow> edge list \<Rightarrow> name_state \<Rightarrow> name_state" where
  "in_edges h [] st = st"
| "in_edges h (e # es) st =
     (if dst_handle e = h then
        in_edges h es
          (add_field (lower (singularize h) @ ''_'' @ lower (edge_handle e)) (src_handle e) ''IN'' st)
      else in_edges h es st)"

definition build_relationship_fields :: "model \<Rightarrow> node \<Rightarrow> (string \<times> string \<times> string) list" where
  "build_relationship_fields m nd =
     sort_key (\<lambda>(fname, adjacent, dir). (if dir = ''OUT'' then (0::nat) else 1, fname))
       (rels (in_edges (node_handle nd) (edges m)
               (out_edges (node_handle nd) (edges m) \<lparr>used = Map.empty, rels = []\<rparr>)))"

subsection \<open>The relationship type of a field (_relationship_type_name)\<close>

fun find_edge :: "edge list \<Rightarrow> string \<Rightarrow> string option" where
  "find_edge [] guess = None"
| "find_edge (e # es) guess =
     (if lower (edge_handle e) = guess then Some (upper (edge_handle e)) else find_edge es guess)"

definition relationship_type_name :: "model \<Rightarrow> string \<Rightarrow> string \<Rightarrow> string \<Rightarrow> string" where
  "relationship_type_name m fname adjacent dir =
     (case find_edge (edges m) (last_segment fname) of
        Some t \<Rightarrow> t
      | None \<Rightarrow> upper (last_segment fname))"

subsection \<open>One type block (generate_type_sdl)\<close>

definition safe_name :: "string \<Rightarrow> string" where
  "safe_name pname = map (\<lambda>ch. if isalnum ch \<or> ch = CHR ''_'' then ch else CHR ''_'') pname"

text \<open>The attributes in the order of \<open>sorted(node.props.items())\<close>: by key, the keys being distinct.\<close>

definition sorted_props :: "node \<Rightarrow> (string \<times> property) list" where
  "sorted_props nd = sort_key fst (props nd)"

definition property_lines :: "node \<Rightarrow> string list" where
  "property_lines nd =
     map (\<lambda>(pname, prop). ''  '' @ safe_name pname @ '': '' @ map_value_domain_to_graphql prop)
       (sorted_props nd)"

definition relationship_lines :: "model \<Rightarrow> node \<Rightarrow> string list" where
  "relationship_lines m nd =
     map (\<lambda>(fname, adjacent, dir).
            ''  '' @ fname @ '': ['' @ adjacent @ ''!]! @relationship(type: \"''
              @ relationship_type_name m fname adjacent dir @ ''\", direction: '' @ dir @ '')'')
       (build_relationship_fields m nd)"

definition generate_type_sdl :: "model \<Rightarrow> node \<Rightarrow> string" where
  "generate_type_sdl m nd =
     join ''\<newline>''
       ([''type '' @ node_handle nd @ '' {''] @ property_lines nd @ relationship_lines m nd @ [''}''])"

subsection \<open>The document (generate_schema)\<close>

definition schema_header :: "model \<Rightarrow> string list" where
  "schema_header m =
     [''#graphql'', '''', ''# Auto-generated from MDF using bento_mdf'',
      ''# Model Handle: '' @ model_handle m, '''',
      ''type FieldCount {'', ''  field: String!'', ''  count: Int!'', ''}'', '''']"

text \<open>The nodes in the order the loop visits them.\<close>

definition sorted_nodes :: "model \<Rightarrow> node list" where
  "sorted_nodes m = sort_key node_handle (nodes m)"

fun append_blocks :: "model \<Rightarrow> node list \<Rightarrow> string list \<Rightarrow> string list" where
  "append_blocks m [] out = out"
| "append_blocks m (nd # nds) out = append_blocks m nds (out @ [generate_type_sdl m nd, ''''])"

definition generate_schema :: "model \<Rightarrow> string" where
  "generate_schema m =
     rstrip (join ''\<newline>'' (append_blocks m (sorted_nodes m) (schema_header m))) @ ''\<newline>''"

section \<open>Notions used in the statements\<close>

text \<open>The relationship key of an emitted line, and the invariant of the two passes on it.\<close>

definition fact_key :: "compiled_field \<Rightarrow> string" where
  "fact_key f = rel_key (rel_type f) (target f) (direction f)"

definition keys_ok :: "emit_state \<Rightarrow> bool" where
  "keys_ok st = (distinct (map fact_key (rel_lines st)) \<and> fact_key ` set (rel_lines st) \<subseteq> added_relationships st)"

text \<open>
  The field name \<open>add_field\<close> gives to a base name already used \<open>k\<close> times, and the
  names it gives, one after the other, to a list of (base name, adjacent type, direction)
  entries when the base names in \<open>seen\<close> have been used before.
\<close>

definition suffixed :: "nat \<Rightarrow> string \<Rightarrow> string" where
  "suffixed k base = (if k = 0 then base else base @ ''_'' @ str_nat (k + 1))"

fun numbered :: "string list \<Rightarrow> (string \<times> string \<times> string) list \<Rightarrow> (string \<times> string \<times> string) list" where
  "numbered seen [] = []"
| "numbered seen ((base, adj) # cs) =
     (suffixed (count_list seen base) base, adj) # numbered (seen @ [base]) cs"

text \<open>The counter map holds, for every base name, the number of its uses so far.\<close>

definition used_counts :: "name_state \<Rightarrow> string list \<Rightarrow> bool" where
  "used_counts st seen = (\<forall>b. (case used st b of None \<Rightarrow> 0 | Some i \<Rightarrow> i) = count_list seen b)"

text \<open>The entries the two loops of \<open>build_relationship_fields\<close> compute, in the order of the edges.\<close>

definition out_candidates :: "string \<Rightarrow> edge list \<Rightarrow> (string \<times> string \<times> string) list" where
  "out_candidates h es =
     map (\<lambda>e. (lower (singularize (dst_handle e)) @ ''_'' @ lower (edge_handle e), dst_handle e, ''OUT''))
       (filter (\<lambda>e. src_handle e = h) es)"

definition in_candidates :: "string \<Rightarrow> edge list \<Rightarrow> (string \<times> string \<times> string) list" where
  "in_candidates h es =
     map (\<lambda>e. (lower (singularize h) @ ''_'' @ lower (edge_handle e), src_handle e, ''IN''))
       (filter (\<lambda>e. dst_handle e = h) es)"

text \<open>
  Two invariants of the passes of the plain variant: every recorded relationship key is
  the key of a fact whose field name is recorded, and the recorded field names are the
  names of the emitted lines.
\<close>

definition keys_named :: "string \<Rightarrow> rel_fact set \<Rightarrow> emit_state \<Rightarrow> bool" where
  "keys_named n D st =
     (\<forall>k\<in>added_relationships st.
        \<exists>(rt, s, d)\<in>D. rel_key rt s d = k \<and> plural_field_name n s \<in> added_field_names st)"

definition names_emitted :: "emit_state \<Rightarrow> bool" where
  "names_emitted st = (added_field_names st = field_name ` set (rel_lines st))"

text \<open>
  The name-based inference in the words of the specification, to be compared with
  \<open>determine_graphql_type\<close>: the fragments \<open>is_\<close> and \<open>has_\<close> count only at the start of
  the name.
\<close>

definition inferred_scalar_as_claimed :: "string \<Rightarrow> string" where
  "inferred_scalar_as_claimed name =
     (if suffix ''_id'' name \<or> name = ''id'' then ''String''
      else if \<exists>p\<in>set numeric_patterns. sublist p name then ''Int''
      else if sublist ''indicator'' name \<or> sublist ''_flag'' name \<or> prefix ''is_'' name \<or> prefix ''has_'' name
        then ''Boolean''
      else ''String'')"

section \<open>String facts\<close>

lemma endswith_suffix: "endswith s suf \<longleftrightarrow> suffix suf s"
proof
  assume "endswith s suf"
  then have "s = take (length s - length suf) s @ suf"
    unfolding endswith_def by (metis append_take_drop_id)
  then show "suffix suf s" by (metis suffixI)
next
  assume "suffix suf s"
  then obtain zs where "s = zs @ suf" by (auto simp: suffix_def)
  then show "endswith s suf" by (simp add: endswith_def)
qed

lemma startswith_prefix: "startswith s pre \<longleftrightarrow> prefix pre s"
proof
  assume "startswith s pre"
  then have "s = pre @ drop (length pre) s"
    unfolding startswith_def by (metis append_take_drop_id)
  then show "prefix pre s" by (metis prefixI)
next
  assume "prefix pre s"
  then obtain zs where "s = pre @ zs" by (auto simp: prefix_def)
  then show "startswith s pre" by (simp add: startswith_def)
qed

lemma contains_sublist: "contains s p \<longleftrightarrow> sublist p s"
  by (induction s) (auto simp: startswith_prefix sublist_Cons_right)

section \<open>The plain variant: relationship fields\<close>

subsection \<open>Where an emitted field comes from\<close>

lemma out_pass_origin:
  "\<forall>f\<in>set (rel_lines st). P f \<Longrightarrow>
   (\<And>rt t d. (rt, t, d) \<in> set facts \<Longrightarrow>
      P \<lparr>field_name = plural_field_name n t, target = t, rel_type = rt, direction = d\<rparr>) \<Longrightarrow>
   \<forall>f\<in>set (rel_lines (out_pass n facts st)). P f"
  by (induction n facts st rule: out_pass.induct) auto

lemma in_pass_origin:
  "\<forall>f\<in>set (rel_lines st). P f \<Longrightarrow>
   (\<And>rt t d. (rt, t, d) \<in> set facts \<Longrightarrow>
      P \<lparr>field_name = plural_field_name n t, target = t, rel_type = rt, direction = d\<rparr>) \<Longrightarrow>
   \<forall>f\<in>set (rel_lines (in_pass n facts st)). P f"
  by (induction n facts st rule: in_pass.induct) auto

lemma relationship_fields_origin:
  assumes "f \<in> set (relationship_fields n facts)"
  shows "(rel_type f, target f, direction f) \<in> set facts \<and> field_name f = plural_field_name n (target f)"
proof -
  let ?P = "\<lambda>f. (rel_type f, target f, direction f) \<in> set facts \<and> field_name f = plural_field_name n (target f)"
  have "\<forall>f\<in>set (rel_lines (out_pass n facts init_state)). ?P f"
    by (rule out_pass_origin) (simp_all add: init_state_def)
  then have "\<forall>f\<in>set (rel_lines (in_pass n facts (out_pass n facts init_state))). ?P f"
    by (rule in_pass_origin) simp
  with assms show ?thesis by (simp add: relationship_fields_def)
qed

subsection \<open>The pluralization rule\<close>

text \<open>
  C5. The field name of a relationship is computed from the adjacent type's identifier: an
  identifier that ends in \<open>s\<close> is kept; otherwise a trailing \<open>y\<close> is replaced by \<open>ies\<close>,
  and any other identifier gets an \<open>s\<close> appended; and when the adjacent type is the node
  type itself (a self-relationship) the identifier is kept unchanged.
\<close>

theorem plural_field_name_rule:
  "(suffix ''s'' w \<longrightarrow> plural_field_name n w = w)
   \<and> (\<not> suffix ''s'' w \<and> w \<noteq> n \<and> suffix ''y'' w \<longrightarrow> plural_field_name n w = butlast w @ ''ies'')
   \<and> (\<not> suffix ''s'' w \<and> w \<noteq> n \<and> \<not> suffix ''y'' w \<longrightarrow> plural_field_name n w = w @ ''s'')
   \<and> plural_field_name n n = n"
  by (simp add: plural_field_name_def endswith_suffix)

theorem plural_field_name_rule_witness:
  "plural_field_name ''sample'' ''diagnosis'' = ''diagnosis''
   \<and> plural_field_name ''sample'' ''study'' = ''studies''
   \<and> plural_field_name ''study'' ''sample'' = ''samples''
   \<and> plural_field_name ''sample'' ''sample'' = ''sample''"
proof -
  have a: "suffix ''s'' ''diagnosis''"
    and b: "\<not> suffix ''s'' ''study'' \<and> ''study'' \<noteq> ''sample'' \<and> suffix ''y'' ''study''"
    and c: "\<not> suffix ''s'' ''sample'' \<and> ''sample'' \<noteq> ''study'' \<and> \<not> suffix ''y'' ''sample''"
    by code_simp+
  from a plural_field_name_rule [of "''diagnosis''" "''sample''"]
  have 1: "plural_field_name ''sample'' ''diagnosis'' = ''diagnosis''" by blast
  from b plural_field_name_rule [of "''study''" "''sample''"]
  have 2: "plural_field_name ''sample'' ''study'' = ''studies''" by simp
  from c plural_field_name_rule [of "''sample''" "''study''"]
  have 3: "plural_field_name ''study'' ''sample'' = ''samples''" by simp
  from plural_field_name_rule [of "''sample''" "''sample''"]
  have 4: "plural_field_name ''sample'' ''sample'' = ''sample''" by blast
  from 1 2 3 4 show ?thesis by blast
qed

subsection \<open>Repeated facts\<close>

lemma keys_ok_emit:
  "keys_ok st \<Longrightarrow> rel_key rt t d \<notin> added_relationships st \<Longrightarrow>
   keys_ok \<lparr>added_relationships = insert (rel_key rt t d) (added_relationships st),
           added_field_names = names,
           rel_lines = rel_lines st @ [\<lparr>field_name = nm, target = t, rel_type = rt, direction = d\<rparr>]\<rparr>"
  by (auto simp: keys_ok_def fact_key_def)

lemma keys_ok_skip:
  "keys_ok st \<Longrightarrow> keys_ok (st\<lparr>added_relationships := insert k (added_relationships st)\<rparr>)"
  by (auto simp: keys_ok_def)

lemma out_pass_keys_ok: "keys_ok st \<Longrightarrow> keys_ok (out_pass n facts st)"
  by (induction n facts st rule: out_pass.induct) (simp_all add: keys_ok_emit)

lemma in_pass_keys_ok: "keys_ok st \<Longrightarrow> keys_ok (in_pass n facts st)"
  by (induction n facts st rule: in_pass.induct) (simp_all add: keys_ok_emit keys_ok_skip)

lemma distinct_map_comp: "distinct (map (\<lambda>x. g (h x)) xs) \<Longrightarrow> distinct (map h xs)"
  by (induction xs) auto

text \<open>
  C10. In the plain variant no two relationship lines of a node type carry the same
  (relationship label, adjacent type, direction) triple, however often the triple occurs
  among the node's facts.
\<close>

theorem repeated_facts_suppressed:
  "distinct (map (\<lambda>f. (rel_type f, target f, direction f)) (relationship_fields n facts))"
proof -
  have "keys_ok init_state" by (simp add: keys_ok_def init_state_def)
  then have "keys_ok (in_pass n facts (out_pass n facts init_state))"
    by (intro in_pass_keys_ok out_pass_keys_ok)
  then have "distinct (map fact_key (relationship_fields n facts))"
    by (simp add: keys_ok_def relationship_fields_def)
  then have "distinct (map (\<lambda>f. (\<lambda>(a, b, c). rel_key a b c) (rel_type f, target f, direction f))
                         (relationship_fields n facts))"
    unfolding fact_key_def by simp
  then show ?thesis by (rule distinct_map_comp)
qed

theorem repeated_facts_suppressed_witness:
  "facts_of (build_relationship_map
      [(''of_study'', Some [(''sample'', ''study''), (''sample'', ''study'')])]) ''sample''
     = [(''of_study'', ''study'', ''OUT''), (''of_study'', ''study'', ''OUT'')]
   \<and> distinct (map (\<lambda>f. (rel_type f, target f, direction f))
        (relationship_fields ''sample''
           [(''of_study'', ''study'', ''OUT''), (''of_study'', ''study'', ''OUT'')]))
   \<and> length (relationship_fields ''sample''
           [(''of_study'', ''study'', ''OUT''), (''of_study'', ''study'', ''OUT'')]) = 1"
proof -
  have a: "facts_of (build_relationship_map
      [(''of_study'', Some [(''sample'', ''study''), (''sample'', ''study'')])]) ''sample''
     = [(''of_study'', ''study'', ''OUT''), (''of_study'', ''study'', ''OUT'')]"
    by code_simp
  have b: "length (relationship_fields ''sample''
           [(''of_study'', ''study'', ''OUT''), (''of_study'', ''study'', ''OUT'')]) = 1"
    by code_simp
  from a b repeated_facts_suppressed [of "''sample''" "[(''of_study'', ''study'', ''OUT''), (''of_study'', ''study'', ''OUT'')]"]
  show ?thesis by blast
qed

subsection \<open>OUT fields before IN fields\<close>









subsection \<open>Two OUT facts with one field name\<close>

text \<open>
  C1. The claim is that the relationship field names of a node type are duplicate-free.
  The first pass records each field name in \<open>added_field_names\<close> but never tests it, so
  two relationships from \<open>sample\<close> to \<open>participant\<close> give the type \<open>sample\<close> two
  fields named \<open>participants\<close>.
\<close>

theorem out_facts_duplicate_field_name:
  "map field_name
     (relationship_fields ''sample''
        (facts_of (build_relationship_map
           [(''of_participant'', Some [(''sample'', ''participant'')]),
            (''derived_from'', Some [(''sample'', ''participant'')])]) ''sample''))
   = [''participants'', ''participants'']
   \<and> map field_name
     (memgraph_relationship_fields ''sample''
        [(''of_participant'', ''participant'', ''OUT''), (''derived_from'', ''participant'', ''OUT'')])
   = [''participants'', ''participants'']"
  by code_simp

subsection \<open>The facts of a node type\<close>

lemma facts_of_append_fact:
  "facts_of (append_fact node f m) n = (if n = node then facts_of m n @ [f] else facts_of m n)"
  by (auto simp: facts_of_def append_fact_def Let_def split: option.splits)

lemma facts_of_add_ends:
  "set (facts_of (add_ends r ends m) n) =
     set (facts_of m n) \<union> {(r, d, ''OUT'') | d. (n, d) \<in> set ends} \<union> {(r, s, ''IN'') | s. (s, n) \<in> set ends}"
  by (induction r ends m rule: add_ends.induct) (auto simp: facts_of_append_fact)

lemma facts_of_build_from:
  "set (facts_of (build_relationship_map_from rs m) n) =
     set (facts_of m n)
     \<union> {(r, d, ''OUT'') | r d ends. (r, Some ends) \<in> set rs \<and> (n, d) \<in> set ends}
     \<union> {(r, s, ''IN'') | r s ends. (r, Some ends) \<in> set rs \<and> (s, n) \<in> set ends}"
proof (induction rs m rule: build_relationship_map_from.induct)
  case (1 m)
  show ?case by simp
next
  case (2 r rel_def rest m)
  show ?case
  proof (cases rel_def)
    case None
    with 2 show ?thesis by auto
  next
    case (Some ends)
    with 2 show ?thesis by (simp add: facts_of_add_ends) blast
  qed
qed

lemma facts_of_build:
  "set (facts_of (build_relationship_map rs) n) =
     {(r, d, ''OUT'') | r d ends. (r, Some ends) \<in> set rs \<and> (n, d) \<in> set ends}
     \<union> {(r, s, ''IN'') | r s ends. (r, Some ends) \<in> set rs \<and> (s, n) \<in> set ends}"
proof -
  have "facts_of Map.empty n = []" by (simp add: facts_of_def)
  with facts_of_build_from [of rs Map.empty n] show ?thesis
    by (simp add: build_relationship_map_def)
qed

lemma in_fact_of_build:
  assumes "(r, s, ''IN'') \<in> set (facts_of (build_relationship_map rs) n)"
  shows "\<exists>ends. (r, Some ends) \<in> set rs \<and> (s, n) \<in> set ends"
  using assms unfolding facts_of_build by auto

subsection \<open>The field name of every IN fact\<close>

lemma keys_named_emit:
  assumes "keys_named n D st" "(rt, t, d) \<in> D"
  shows "keys_named n D
           \<lparr>added_relationships = insert (rel_key rt t d) (added_relationships st),
            added_field_names = insert (plural_field_name n t) (added_field_names st),
            rel_lines = L\<rparr>"
  using assms unfolding keys_named_def by fastforce

lemma keys_named_drop:
  assumes "keys_named n D st" "(rt, t, d) \<in> D" "plural_field_name n t \<in> added_field_names st"
  shows "keys_named n D (st\<lparr>added_relationships := insert (rel_key rt t d) (added_relationships st)\<rparr>)"
  using assms unfolding keys_named_def by fastforce

lemma out_pass_keys_named:
  "keys_named n D st \<Longrightarrow> set facts \<subseteq> D \<Longrightarrow> keys_named n D (out_pass n facts st)"
  by (induction n facts st rule: out_pass.induct) (auto simp: keys_named_emit)

lemma in_pass_keys_named:
  "keys_named n D st \<Longrightarrow> set facts \<subseteq> D \<Longrightarrow> keys_named n D (in_pass n facts st)"
  by (induction n facts st rule: in_pass.induct) (auto simp: keys_named_emit keys_named_drop)

lemma out_pass_names_emitted: "names_emitted st \<Longrightarrow> names_emitted (out_pass n facts st)"
  by (induction n facts st rule: out_pass.induct) (simp_all add: names_emitted_def)

lemma in_pass_names_emitted: "names_emitted st \<Longrightarrow> names_emitted (in_pass n facts st)"
  by (induction n facts st rule: in_pass.induct) (simp_all add: names_emitted_def)

lemma in_pass_keeps_keys:
  "k \<in> added_relationships st \<Longrightarrow> k \<in> added_relationships (in_pass n facts st)"
  by (induction n facts st rule: in_pass.induct) simp_all

lemma in_pass_adds_keys:
  "(rt, s, ''IN'') \<in> set facts \<Longrightarrow> rel_key rt s ''IN'' \<in> added_relationships (in_pass n facts st)"
proof (induction n facts st rule: in_pass.induct)
  case (1 n st)
  then show ?case by simp
next
  case (2 n rt' t' d' rest st)
  show ?case
  proof (cases "(rt, s, ''IN'') = (rt', t', d')")
    case True
    then show ?thesis by (auto intro: in_pass_keeps_keys)
  next
    case False
    with "2.prems" have "(rt, s, ''IN'') \<in> set rest" by auto
    with "2.IH" show ?thesis by simp
  qed
qed

lemma in_fact_candidate:
  assumes "(rt, s, ''IN'') \<in> set facts"
  shows "\<exists>(rt', s', d')\<in>set facts. rel_key rt' s' d' = rel_key rt s ''IN''
           \<and> plural_field_name n s' \<in> field_name ` set (relationship_fields n facts)"
proof -
  let ?st = "in_pass n facts (out_pass n facts init_state)"
  have "keys_named n (set facts) init_state" by (simp add: keys_named_def init_state_def)
  then have "keys_named n (set facts) ?st"
    by (intro in_pass_keys_named out_pass_keys_named) simp_all
  moreover have "rel_key rt s ''IN'' \<in> added_relationships ?st"
    using assms by (rule in_pass_adds_keys)
  ultimately have "\<exists>(rt', s', d')\<in>set facts. rel_key rt' s' d' = rel_key rt s ''IN''
           \<and> plural_field_name n s' \<in> added_field_names ?st"
    unfolding keys_named_def by blast
  moreover have "names_emitted init_state" by (simp add: names_emitted_def init_state_def)
  then have "names_emitted ?st" by (intro in_pass_names_emitted out_pass_names_emitted)
  then have "added_field_names ?st = field_name ` set (relationship_fields n facts)"
    by (simp add: names_emitted_def relationship_fields_def)
  ultimately show ?thesis by simp
qed

section \<open>The metadata-driven variant: relationship fields\<close>

lemma add_field_numbered:
  assumes "used_counts st seen"
  shows "rels (add_field b a d st) = rels st @ [(suffixed (count_list seen b) b, a, d)]
         \<and> used_counts (add_field b a d st) (seen @ [b])"
proof -
  from assms have idx: "(case used st b of None \<Rightarrow> 0 | Some i \<Rightarrow> i) = count_list seen b"
    by (simp add: used_counts_def)
  have r: "rels (add_field b a d st) = rels st @ [(suffixed (count_list seen b) b, a, d)]"
    unfolding add_field_def Let_def idx suffixed_def by simp
  have u: "used (add_field b a d st) = (used st)(b \<mapsto> count_list seen b + 1)"
    unfolding add_field_def Let_def idx by simp
  have "used_counts (add_field b a d st) (seen @ [b])"
    unfolding used_counts_def u using assms by (auto simp: used_counts_def)
  with r show ?thesis by blast
qed

lemma out_edges_numbered:
  "used_counts st seen \<Longrightarrow>
   rels (out_edges h es st) = rels st @ numbered seen (out_candidates h es)
   \<and> used_counts (out_edges h es st) (seen @ map fst (out_candidates h es))"
proof (induction h es st arbitrary: seen rule: out_edges.induct)
  case (1 h st)
  then show ?case by (simp add: out_candidates_def)
next
  case (2 h e es st)
  show ?case
  proof (cases "src_handle e = h")
    case True
    let ?b = "lower (singularize (dst_handle e)) @ ''_'' @ lower (edge_handle e)"
    let ?st' = "add_field ?b (dst_handle e) ''OUT'' st"
    from add_field_numbered [OF 2(3), of ?b "dst_handle e" "''OUT''"]
    have r: "rels ?st' = rels st @ [(suffixed (count_list seen ?b) ?b, dst_handle e, ''OUT'')]"
      and u: "used_counts ?st' (seen @ [?b])" by blast+
    from 2(1) [OF True u]
    have "rels (out_edges h es ?st') = rels ?st' @ numbered (seen @ [?b]) (out_candidates h es)"
      and "used_counts (out_edges h es ?st') ((seen @ [?b]) @ map fst (out_candidates h es))" by blast+
    moreover have "out_candidates h (e # es) = (?b, dst_handle e, ''OUT'') # out_candidates h es"
      using True by (simp add: out_candidates_def)
    ultimately show ?thesis using True r by simp
  next
    case False
    moreover have "out_candidates h (e # es) = out_candidates h es"
      using False by (simp add: out_candidates_def)
    ultimately show ?thesis using 2(2) [OF False 2(3)] by simp
  qed
qed

lemma in_edges_numbered:
  "used_counts st seen \<Longrightarrow>
   rels (in_edges h es st) = rels st @ numbered seen (in_candidates h es)
   \<and> used_counts (in_edges h es st) (seen @ map fst (in_candidates h es))"
proof (induction h es st arbitrary: seen rule: in_edges.induct)
  case (1 h st)
  then show ?case by (simp add: in_candidates_def)
next
  case (2 h e es st)
  show ?case
  proof (cases "dst_handle e = h")
    case True
    let ?b = "lower (singularize h) @ ''_'' @ lower (edge_handle e)"
    let ?st' = "add_field ?b (src_handle e) ''IN'' st"
    from add_field_numbered [OF 2(3), of ?b "src_handle e" "''IN''"]
    have r: "rels ?st' = rels st @ [(suffixed (count_list seen ?b) ?b, src_handle e, ''IN'')]"
      and u: "used_counts ?st' (seen @ [?b])" by blast+
    from 2(1) [OF True u]
    have "rels (in_edges h es ?st') = rels ?st' @ numbered (seen @ [?b]) (in_candidates h es)"
      and "used_counts (in_edges h es ?st') ((seen @ [?b]) @ map fst (in_candidates h es))" by blast+
    moreover have "in_candidates h (e # es) = (?b, src_handle e, ''IN'') # in_candidates h es"
      using True by (simp add: in_candidates_def)
    ultimately show ?thesis using True r by simp
  next
    case False
    moreover have "in_candidates h (e # es) = in_candidates h es"
      using False by (simp add: in_candidates_def)
    ultimately show ?thesis using 2(2) [OF False 2(3)] by simp
  qed
qed

lemma numbered_append:
  "numbered seen (xs @ ys) = numbered seen xs @ numbered (seen @ map fst xs) ys"
  by (induction xs arbitrary: seen) auto

lemma length_numbered: "length (numbered seen cs) = length cs"
  by (induction cs arbitrary: seen) auto

lemma numbered_nth:
  "i < length cs \<Longrightarrow>
   numbered seen cs ! i =
     (suffixed (count_list (seen @ take i (map fst cs)) (fst (cs ! i))) (fst (cs ! i)), snd (cs ! i))"
proof (induction cs arbitrary: seen i)
  case Nil
  then show ?case by simp
next
  case (Cons c cs)
  obtain b adj where c: "c = (b, adj)" by (cases c)
  show ?case
  proof (cases i)
    case 0
    then show ?thesis by (simp add: c)
  next
    case (Suc j)
    with Cons.prems have "j < length cs" by simp
    from Cons.IH [OF this, of "seen @ [b]"] Suc show ?thesis by (simp add: c)
  qed
qed

lemma unsorted_fields:
  "rels (in_edges h es (out_edges h es \<lparr>used = Map.empty, rels = []\<rparr>))
   = numbered [] (out_candidates h es @ in_candidates h es)"
proof -
  have u0: "used_counts \<lparr>used = Map.empty, rels = []\<rparr> []" by (simp add: used_counts_def)
  from out_edges_numbered [OF u0, of h es]
  have o: "rels (out_edges h es \<lparr>used = Map.empty, rels = []\<rparr>) = numbered [] (out_candidates h es)"
    and uo: "used_counts (out_edges h es \<lparr>used = Map.empty, rels = []\<rparr>) (map fst (out_candidates h es))"
    by simp_all
  from in_edges_numbered [OF uo, of h es] o show ?thesis by (simp add: numbered_append)
qed

section \<open>Which type gets which field\<close>

text \<open>
  C2, as claimed: for the single relationship \<open>of_sample\<close> from \<open>diagnosis\<close> to \<open>sample\<close>,
  the type \<open>sample\<close> would get an OUT field named \<open>samples\<close>. In both compiler variants
  the only relationship field of \<open>sample\<close> is an IN field.
\<close>

theorem sample_has_no_out_field:
  "relationship_fields ''sample''
     (facts_of (build_relationship_map [(''of_sample'', Some [(''diagnosis'', ''sample'')])]) ''sample'')
   = [\<lparr>field_name = ''diagnosis'', target = ''diagnosis'', rel_type = ''of_sample'', direction = ''IN''\<rparr>]
   \<and> build_relationship_fields
       \<lparr>model_handle = ''ccdi'',
        nodes = [\<lparr>node_handle = ''diagnosis'', props = []\<rparr>, \<lparr>node_handle = ''sample'', props = []\<rparr>],
        edges = [\<lparr>edge_handle = ''of_sample'', src_handle = ''diagnosis'', dst_handle = ''sample''\<rparr>]\<rparr>
       \<lparr>node_handle = ''sample'', props = []\<rparr>
   = [(''sample_of_sample'', ''diagnosis'', ''IN'')]"
  by code_simp

text \<open>
  C2, amended: for that input the plain variant gives the source type \<open>diagnosis\<close> the
  OUT field named \<open>samples\<close> (the pluralized destination), annotated with the label as
  written, \<open>of_sample\<close>, and gives the destination type \<open>sample\<close> the IN field, named
  \<open>diagnosis\<close> after the source type.
\<close>

theorem of_sample_blocks:
  "generate_node_type ''diagnosis'' []
     (build_relationship_map [(''of_sample'', Some [(''diagnosis'', ''sample'')])]) Map.empty
   = ''type diagnosis {\<newline>  samples: [sample!]! @relationship(type: \"of_sample\", direction: OUT)\<newline>}\<newline>''
   \<and> generate_node_type ''sample'' []
     (build_relationship_map [(''of_sample'', Some [(''diagnosis'', ''sample'')])]) Map.empty
   = ''type sample {\<newline>  diagnosis: [diagnosis!]! @relationship(type: \"of_sample\", direction: IN)\<newline>}\<newline>''"
  by code_simp

text \<open>
  The metadata-driven variant on the same input: the OUT field of \<open>diagnosis\<close> is named
  \<open>sample_of_sample\<close>, and the relationship type recovered from that name is the segment
  after its last underscore.
\<close>

lemma of_sample_type_name:
  "relationship_lines
     \<lparr>model_handle = ''ccdi'',
      nodes = [\<lparr>node_handle = ''diagnosis'', props = []\<rparr>, \<lparr>node_handle = ''sample'', props = []\<rparr>],
      edges = [\<lparr>edge_handle = ''of_sample'', src_handle = ''diagnosis'', dst_handle = ''sample''\<rparr>]\<rparr>
     \<lparr>node_handle = ''diagnosis'', props = []\<rparr>
   = [''  sample_of_sample: [sample!]! @relationship(type: \"SAMPLE\", direction: OUT)'']"
  by code_simp

text \<open>
  C3, as claimed: the name of an IN field would come from the node type's own identifier,
  pluralized. For the relationship \<open>of_study\<close> from \<open>sample\<close> to \<open>study\<close> the IN field of
  \<open>study\<close> is named \<open>samples\<close>, after the source type, in the plain variant, and
  \<open>study_of_study\<close> in the metadata-driven variant; the pluralized own identifier is
  \<open>studies\<close>.
\<close>

theorem in_field_name_of_study:
  "relationship_fields ''study''
     (facts_of (build_relationship_map [(''of_study'', Some [(''sample'', ''study'')])]) ''study'')
   = [\<lparr>field_name = ''samples'', target = ''sample'', rel_type = ''of_study'', direction = ''IN''\<rparr>]
   \<and> plural_field_name ''sample'' ''study'' = ''studies''
   \<and> build_relationship_fields
       \<lparr>model_handle = ''ccdi'',
        nodes = [\<lparr>node_handle = ''sample'', props = []\<rparr>, \<lparr>node_handle = ''study'', props = []\<rparr>],
        edges = [\<lparr>edge_handle = ''of_study'', src_handle = ''sample'', dst_handle = ''study''\<rparr>]\<rparr>
       \<lparr>node_handle = ''study'', props = []\<rparr>
   = [(''study_of_study'', ''sample'', ''IN'')]"
  by code_simp

text \<open>
  C3, amended: in the plain variant the name of an IN field is computed from the source
  type's identifier, by the same rule as the name of an OUT field from the destination's;
  this name is computed for every IN fact of the type, and it is the name of one of the
  type's fields unless the fact is skipped because another fact has the same relationship
  key. In the metadata-driven variant every edge into the node gives one IN field, whose
  base name is the node's own handle, singularized and in lower case, followed by an
  underscore and the edge handle in lower case; the field name is the base name at its
  first use on the type (the uses by OUT fields included) and the base name followed by
  \<open>_k\<close> at its \<open>k\<close>-th use, \<open>k\<close> from 2 on; the fields are then sorted, OUT before IN, by
  name.
\<close>

theorem in_field_names:
  "(\<forall>f\<in>set (relationship_fields n (facts_of (build_relationship_map rs) n)).
      direction f = ''IN'' \<longrightarrow>
        field_name f = plural_field_name n (target f)
        \<and> (\<exists>ends. (rel_type f, Some ends) \<in> set rs \<and> (target f, n) \<in> set ends))
   \<and> (\<forall>(rt, s, d)\<in>set (facts_of (build_relationship_map rs) n).
      d = ''IN'' \<longrightarrow>
        (\<exists>f\<in>set (relationship_fields n (facts_of (build_relationship_map rs) n)).
           field_name f = plural_field_name n s)
        \<or> (\<exists>(rt', s', d')\<in>set (facts_of (build_relationship_map rs) n).
             (rt', s') \<noteq> (rt, s) \<and> rel_key rt' s' d' = rel_key rt s ''IN''))
   \<and> (let h = node_handle nd;
           cs = map (\<lambda>e. (lower (singularize (dst_handle e)) @ ''_'' @ lower (edge_handle e), dst_handle e, ''OUT''))
                  (filter (\<lambda>e. src_handle e = h) (edges m))
                @ map (\<lambda>e. (lower (singularize h) @ ''_'' @ lower (edge_handle e), src_handle e, ''IN''))
                  (filter (\<lambda>e. dst_handle e = h) (edges m))
       in \<exists>fs. build_relationship_fields m nd
                  = sort_key (\<lambda>(fname, adjacent, dir). (if dir = ''OUT'' then (0::nat) else 1, fname)) fs
             \<and> length fs = length cs
             \<and> (\<forall>i<length cs.
                  fs ! i =
                    (let base = fst (cs ! i); k = count_list (take i (map fst cs)) base
                     in (if k = 0 then base else base @ ''_'' @ str_nat (k + 1), snd (cs ! i)))))"
proof -
  let ?facts = "facts_of (build_relationship_map rs) n"
  have plain: "field_name f = plural_field_name n (target f)
        \<and> (\<exists>ends. (rel_type f, Some ends) \<in> set rs \<and> (target f, n) \<in> set ends)"
    if f: "f \<in> set (relationship_fields n ?facts)" and d: "direction f = ''IN''" for f
  proof -
    from relationship_fields_origin [OF f] d
    have "(rel_type f, target f, ''IN'') \<in> set ?facts"
      and nm: "field_name f = plural_field_name n (target f)" by simp_all
    then have "\<exists>ends. (rel_type f, Some ends) \<in> set rs \<and> (target f, n) \<in> set ends"
      by (intro in_fact_of_build)
    with nm show ?thesis by blast
  qed
  have every: "(\<exists>f\<in>set (relationship_fields n ?facts). field_name f = plural_field_name n s)
        \<or> (\<exists>(rt', s', d')\<in>set ?facts. (rt', s') \<noteq> (rt, s) \<and> rel_key rt' s' d' = rel_key rt s ''IN'')"
    if "(rt, s, d) \<in> set ?facts" and "d = ''IN''" for rt s d
  proof -
    from that have "(rt, s, ''IN'') \<in> set ?facts" by simp
    from in_fact_candidate [OF this, of n] obtain rt' s' d' where x:
      "(rt', s', d') \<in> set ?facts" "rel_key rt' s' d' = rel_key rt s ''IN''"
      "plural_field_name n s' \<in> field_name ` set (relationship_fields n ?facts)" by blast
    show ?thesis
    proof (cases "(rt', s') = (rt, s)")
      case True
      with x(3) show ?thesis by auto
    next
      case False
      with x(1,2) show ?thesis by blast
    qed
  qed
  let ?h = "node_handle nd"
  let ?cs = "out_candidates ?h (edges m) @ in_candidates ?h (edges m)"
  let ?fs = "numbered [] ?cs"
  have b: "build_relationship_fields m nd
             = sort_key (\<lambda>(fname, adjacent, dir). (if dir = ''OUT'' then (0::nat) else 1, fname)) ?fs"
    by (simp only: build_relationship_fields_def unsorted_fields)
  have l: "length ?fs = length ?cs" by (rule length_numbered)
  have nth: "?fs ! i = (let base = fst (?cs ! i); k = count_list (take i (map fst ?cs)) base
                     in (if k = 0 then base else base @ ''_'' @ str_nat (k + 1), snd (?cs ! i)))"
    if "i < length ?cs" for i
    using numbered_nth [OF that, of "[]"] by (simp add: suffixed_def Let_def)
  from b l nth have "\<exists>fs. build_relationship_fields m nd
                  = sort_key (\<lambda>(fname, adjacent, dir). (if dir = ''OUT'' then (0::nat) else 1, fname)) fs
             \<and> length fs = length ?cs
             \<and> (\<forall>i<length ?cs.
                  fs ! i =
                    (let base = fst (?cs ! i); k = count_list (take i (map fst ?cs)) base
                     in (if k = 0 then base else base @ ''_'' @ str_nat (k + 1), snd (?cs ! i))))"
    by blast
  then have mdf: "(let h = node_handle nd;
           cs = map (\<lambda>e. (lower (singularize (dst_handle e)) @ ''_'' @ lower (edge_handle e), dst_handle e, ''OUT''))
                  (filter (\<lambda>e. src_handle e = h) (edges m))
                @ map (\<lambda>e. (lower (singularize h) @ ''_'' @ lower (edge_handle e), src_handle e, ''IN''))
                  (filter (\<lambda>e. dst_handle e = h) (edges m))
       in \<exists>fs. build_relationship_fields m nd
                  = sort_key (\<lambda>(fname, adjacent, dir). (if dir = ''OUT'' then (0::nat) else 1, fname)) fs
             \<and> length fs = length cs
             \<and> (\<forall>i<length cs.
                  fs ! i =
                    (let base = fst (cs ! i); k = count_list (take i (map fst cs)) base
                     in (if k = 0 then base else base @ ''_'' @ str_nat (k + 1), snd (cs ! i)))))"
    unfolding out_candidates_def in_candidates_def Let_def .
  from plain every mdf show ?thesis by blast
qed

theorem in_field_names_witness:
  "\<lparr>field_name = ''samples'', target = ''sample'', rel_type = ''of_study'', direction = ''IN''\<rparr>
     \<in> set (relationship_fields ''study''
         (facts_of (build_relationship_map [(''of_study'', Some [(''sample'', ''study'')])]) ''study''))
   \<and> ''samples'' = plural_field_name ''study'' ''sample''
   \<and> build_relationship_fields
        \<lparr>model_handle = ''ccdi'', nodes = [],
         edges = [\<lparr>edge_handle = ''of_study'', src_handle = ''sample'', dst_handle = ''study''\<rparr>,
                  \<lparr>edge_handle = ''of_study'', src_handle = ''file'', dst_handle = ''study''\<rparr>]\<rparr>
        \<lparr>node_handle = ''study'', props = []\<rparr>
     = [(''study_of_study'', ''sample'', ''IN''), (''study_of_study_2'', ''file'', ''IN'')]"
proof -
  let ?f = "\<lparr>field_name = ''samples'', target = ''sample'', rel_type = ''of_study'', direction = ''IN''\<rparr>"
  let ?rs = "[(''of_study'', Some [(''sample'', ''study'')])]"
  let ?m = "\<lparr>model_handle = ''ccdi'', nodes = [],
         edges = [\<lparr>edge_handle = ''of_study'', src_handle = ''sample'', dst_handle = ''study''\<rparr>,
                  \<lparr>edge_handle = ''of_study'', src_handle = ''file'', dst_handle = ''study''\<rparr>]\<rparr>"
  let ?nd = "\<lparr>node_handle = ''study'', props = []\<rparr>"
  let ?key = "\<lambda>(fname, adjacent, dir). (if dir = ''OUT'' then (0::nat) else 1, fname)"
  note t = in_field_names [of "''study''" ?rs ?nd ?m]
  have a: "?f \<in> set (relationship_fields ''study'' (facts_of (build_relationship_map ?rs) ''study''))"
    by code_simp
  from t a have 1: "field_name ?f = plural_field_name ''study'' (target ?f)" by fastforce
  have cs: "map (\<lambda>e. (lower (singularize (dst_handle e)) @ ''_'' @ lower (edge_handle e), dst_handle e, ''OUT''))
                  (filter (\<lambda>e. src_handle e = node_handle ?nd) (edges ?m))
                @ map (\<lambda>e. (lower (singularize (node_handle ?nd)) @ ''_'' @ lower (edge_handle e), src_handle e, ''IN''))
                  (filter (\<lambda>e. dst_handle e = node_handle ?nd) (edges ?m))
            = [(''study_of_study'', ''sample'', ''IN''), (''study_of_study'', ''file'', ''IN'')]"
    by code_simp
  have "str_nat 2 = ''2''" by code_simp
  then have two: "str_nat (Suc (Suc 0)) = ''2''" by (simp only: numeral_2_eq_2)
  from t have "let h = node_handle ?nd;
           cs = map (\<lambda>e. (lower (singularize (dst_handle e)) @ ''_'' @ lower (edge_handle e), dst_handle e, ''OUT''))
                  (filter (\<lambda>e. src_handle e = h) (edges ?m))
                @ map (\<lambda>e. (lower (singularize h) @ ''_'' @ lower (edge_handle e), src_handle e, ''IN''))
                  (filter (\<lambda>e. dst_handle e = h) (edges ?m))
       in \<exists>fs. build_relationship_fields ?m ?nd = sort_key ?key fs
             \<and> length fs = length cs
             \<and> (\<forall>i<length cs.
                  fs ! i =
                    (let base = fst (cs ! i); k = count_list (take i (map fst cs)) base
                     in (if k = 0 then base else base @ ''_'' @ str_nat (k + 1), snd (cs ! i))))"
    by (elim conjE)
  then obtain fs where fs: "build_relationship_fields ?m ?nd = sort_key ?key fs"
    "length fs = 2"
    "\<forall>i<2. fs ! i =
        (let base = fst ([(''study_of_study'', ''sample'', ''IN''), (''study_of_study'', ''file'', ''IN'')] ! i);
             k = count_list (take i (map fst [(''study_of_study'', ''sample'', ''IN''), (''study_of_study'', ''file'', ''IN'')])) base
         in (if k = 0 then base else base @ ''_'' @ str_nat (k + 1),
             snd ([(''study_of_study'', ''sample'', ''IN''), (''study_of_study'', ''file'', ''IN'')] ! i)))"
    unfolding Let_def [of "node_handle ?nd"] Let_def [of "map _ _ @ map _ _"] cs by auto
  from fs(3) have "fs ! 0 = (''study_of_study'', ''sample'', ''IN'')" by simp
  moreover from fs(3) have "fs ! 1 = (''study_of_study_2'', ''file'', ''IN'')" by (simp add: two)
  ultimately have "fs = [(''study_of_study'', ''sample'', ''IN''), (''study_of_study_2'', ''file'', ''IN'')]"
    using fs(2) by (intro nth_equalityI) (auto simp: less_Suc_eq numeral_2_eq_2)
  moreover have "sort_key ?key [(''study_of_study'', ''sample'', ''IN''), (''study_of_study_2'', ''file'', ''IN'')]
      = [(''study_of_study'', ''sample'', ''IN''), (''study_of_study_2'', ''file'', ''IN'')]"
    by code_simp
  ultimately have 2: "build_relationship_fields ?m ?nd
      = [(''study_of_study'', ''sample'', ''IN''), (''study_of_study_2'', ''file'', ''IN'')]"
    using fs(1) by simp
  from a 1 2 show ?thesis by simp
qed

section \<open>Attribute type inference from the name\<close>

lemma any_pattern_in_iff: "any_pattern_in ps s \<longleftrightarrow> (\<exists>p\<in>set ps. sublist p s)"
  by (induction ps) (auto simp: contains_sublist)

text \<open>
  C6, as claimed: the boolean class would match the fragments \<open>is_\<close> and \<open>has_\<close> only at
  the start of the name. The attribute name \<open>diagnosis_basis\<close> is in neither of the first
  two classes and does not start with \<open>is_\<close>, so the claim gives it the string scalar;
  the code finds \<open>is_\<close> inside the name and gives it the boolean scalar.
\<close>

theorem diagnosis_basis_is_boolean:
  "determine_graphql_type ''diagnosis_basis'' None = ''Boolean''
   \<and> inferred_scalar_as_claimed ''diagnosis_basis'' = ''String''"
  by code_simp

text \<open>
  C6, amended: without a declared type, the scalar is inferred from the attribute name by
  three classes, the first that matches winning: a name that ends in \<open>_id\<close> or is \<open>id\<close>
  gets the string scalar; a name whose lower-case form contains one of the numeric
  fragments gets the integer scalar; a name whose lower-case form contains, at any
  position, one of \<open>indicator\<close>, \<open>_flag\<close>, \<open>is_\<close>, \<open>has_\<close> gets the boolean scalar;
  every other name gets the string scalar.
\<close>

theorem determine_graphql_type_by_name:
  "determine_graphql_type name None =
     (if suffix ''_id'' name \<or> name = ''id'' then ''String''
      else if \<exists>p\<in>set numeric_patterns. sublist p (lower name) then ''Int''
      else if \<exists>p\<in>set boolean_patterns. sublist p (lower name) then ''Boolean''
      else ''String'')"
  by (simp add: determine_graphql_type_def endswith_suffix any_pattern_in_iff)

theorem determine_graphql_type_by_name_witness:
  "determine_graphql_type ''age_at_diagnosis_id'' None = ''String''
   \<and> determine_graphql_type ''Tumor_Size'' None = ''Int''
   \<and> determine_graphql_type ''analysis_type'' None = ''Boolean''"
proof -
  have a: "suffix ''_id'' ''age_at_diagnosis_id''" by code_simp
  have b: "\<not> suffix ''_id'' ''Tumor_Size''" "''Tumor_Size'' \<noteq> ''id''"
    "\<exists>p\<in>set numeric_patterns. sublist p (lower ''Tumor_Size'')" by code_simp+
  have c: "\<not> suffix ''_id'' ''analysis_type''" "''analysis_type'' \<noteq> ''id''"
    "\<not> (\<exists>p\<in>set numeric_patterns. sublist p (lower ''analysis_type''))"
    "\<exists>p\<in>set boolean_patterns. sublist p (lower ''analysis_type'')" by code_simp+
  have 1: "determine_graphql_type ''age_at_diagnosis_id'' None = ''String''"
    unfolding determine_graphql_type_by_name [of "''age_at_diagnosis_id''"] using a by (simp only: if_True simp_thms)
  have 2: "determine_graphql_type ''Tumor_Size'' None = ''Int''"
    unfolding determine_graphql_type_by_name [of "''Tumor_Size''"] using b by (simp only: if_True if_False simp_thms)
  have 3: "determine_graphql_type ''analysis_type'' None = ''Boolean''"
    unfolding determine_graphql_type_by_name [of "''analysis_type''"] using c by (simp only: if_True if_False simp_thms)
  from 1 2 3 show ?thesis by blast
qed

section \<open>Pluralize, then singularize\<close>

lemma endswith_snoc: "endswith (w @ [c]) (p @ [c']) \<longleftrightarrow> c = c' \<and> endswith w p"
  by (auto simp: endswith_suffix suffix_to_prefix)

text \<open>
  C7, as claimed: singularizing the pluralized word gives the word back for every ordinary
  noun. The node type \<open>treatment_response\<close> is pluralized by appending \<open>s\<close>, and the
  singularization of \<open>treatment_responses\<close> removes the final \<open>es\<close>.
\<close>

theorem treatment_response_round_trip:
  "plural_field_name ''sample'' ''treatment_response'' = ''treatment_responses''
   \<and> singularize ''treatment_responses'' = ''treatment_respons''"
  by code_simp

text \<open>
  C7, amended: for every word that ends neither in \<open>s\<close> nor in \<open>se\<close> nor in \<open>ie\<close>,
  singularizing its pluralized form (the field name it gives as an adjacent type other
  than the node type itself) gives the word back.
\<close>

theorem singularize_plural_field_name:
  assumes "\<not> suffix ''s'' w" "\<not> suffix ''ie'' w" "\<not> suffix ''se'' w" "w \<noteq> n"
  shows "singularize (plural_field_name n w) = w"
proof (cases "suffix ''y'' w")
  case True
  then obtain v where w: "w = v @ ''y''" by (auto simp: suffix_def)
  with assms have "plural_field_name n w = v @ ''ies''"
    by (simp add: plural_field_name_def endswith_suffix)
  moreover have "singularize (v @ ''ies'') = v @ ''y''"
    by (simp add: singularize_def endswith_def)
  ultimately show ?thesis using w by simp
next
  case False
  with assms have p: "plural_field_name n w = w @ ''s''"
    by (simp add: plural_field_name_def endswith_suffix)
  have a: "\<not> endswith (w @ ''s'') ''ies''"
    using endswith_snoc [of w "CHR ''s''" "''ie''" "CHR ''s''"] assms(2) by (simp add: endswith_suffix)
  have b: "\<not> endswith (w @ ''s'') ''ses''"
    using endswith_snoc [of w "CHR ''s''" "''se''" "CHR ''s''"] assms(3) by (simp add: endswith_suffix)
  have c: "\<not> endswith (w @ ''s'') ''ss''"
    using endswith_snoc [of w "CHR ''s''" "''s''" "CHR ''s''"] assms(1) by (simp add: endswith_suffix)
  have d: "endswith (w @ ''s'') ''s''"
    using endswith_snoc [of w "CHR ''s''" "[]" "CHR ''s''"] by (simp add: endswith_suffix)
  from a b c d show ?thesis unfolding p singularize_def by simp
qed

theorem singularize_plural_field_name_witness:
  "singularize (plural_field_name ''study'' ''sample'') = ''sample''
   \<and> singularize (plural_field_name ''sample'' ''study'') = ''study''"
proof -
  have a: "\<not> suffix ''s'' ''sample''" "\<not> suffix ''ie'' ''sample''" "\<not> suffix ''se'' ''sample''"
    "''sample'' \<noteq> ''study''" by code_simp+
  have b: "\<not> suffix ''s'' ''study''" "\<not> suffix ''ie'' ''study''" "\<not> suffix ''se'' ''study''"
    "''study'' \<noteq> ''sample''" by code_simp+
  from singularize_plural_field_name [OF a] singularize_plural_field_name [OF b]
  show ?thesis by blast
qed

section \<open>The document\<close>

lemma append_blocks_concat:
  "append_blocks m nds out = out @ concat (map (\<lambda>nd. [generate_type_sdl m nd, '''']) nds)"
  by (induction nds arbitrary: out) simp_all

lemma join_Cons: "join sep (x # xs) = x @ (if xs = [] then [] else sep @ join sep xs)"
  by (cases xs) simp_all

lemma join_snoc: "xs \<noteq> [] \<Longrightarrow> join sep (xs @ [y]) = join sep xs @ sep @ y"
  by (induction sep xs rule: join.induct) simp_all

lemma suffix_join_last: "suffix y (join sep (xs @ [y]))"
  by (cases "xs = []") (simp_all add: join_snoc suffix_def)

lemma rstrip_nonspace:
  assumes "c \<in> set s" "\<not> isspace c"
  shows "rstrip s \<noteq> [] \<and> \<not> isspace (last (rstrip s))"
proof -
  from assms have ne: "dropWhile isspace (rev s) \<noteq> []" by auto
  then have "\<not> isspace (hd (dropWhile isspace (rev s)))" by (rule hd_dropWhile)
  with ne show ?thesis by (simp add: rstrip_def last_rev)
qed

lemma generate_schema_body:
  "rstrip (join ''\<newline>'' (append_blocks m (sorted_nodes m) (schema_header m))) \<noteq> []
   \<and> \<not> isspace (last (rstrip (join ''\<newline>'' (append_blocks m (sorted_nodes m) (schema_header m)))))"
proof -
  have "CHR ''#'' \<in> set (join ''\<newline>'' (append_blocks m (sorted_nodes m) (schema_header m)))"
    by (simp add: append_blocks_concat schema_header_def join_Cons)
  moreover have "\<not> isspace CHR ''#''" by code_simp
  ultimately show ?thesis by (rule rstrip_nonspace)
qed

lemma generate_node_type_end: "suffix ''}\<newline>'' (generate_node_type n ps rm pd)"
proof -
  let ?pre = "[''type '' @ n @ '' {'']
        @ map (\<lambda>prop_name. ''  '' @ prop_name @ '': '' @ determine_graphql_type prop_name (pd prop_name)) ps
        @ map render_field (relationship_fields n (facts_of rm n))"
  have "generate_node_type n ps rm pd = join ''\<newline>'' ((?pre @ [''}'']) @ [''''])"
    by (simp add: generate_node_type_def)
  also have "\<dots> = join ''\<newline>'' (?pre @ [''}'']) @ ''\<newline>''"
    by (subst join_snoc) simp_all
  also have "\<dots> = (join ''\<newline>'' ?pre @ ''\<newline>'' @ ''}'') @ ''\<newline>''"
    by (subst join_snoc) simp_all
  finally show ?thesis by (simp add: suffix_def)
qed

lemma process_ccdi_model_end: "suffix ''}\<newline>'' (process_ccdi_model ns rs pd)"
proof (cases ns rule: rev_cases)
  case Nil
  then show ?thesis by (simp add: process_ccdi_model_def suffix_def)
next
  case (snoc ns' nd)
  obtain n ps where nd: "nd = (n, ps)" by (cases nd)
  let ?hd = "[''#graphql'', '''', ''# Type for field count results'', ''type FieldCount {'',
         ''  field: String!'', ''  count: Int!'', ''}'', '''']"
  let ?f = "\<lambda>(node_name, props). generate_node_type node_name props (build_relationship_map rs) pd"
  have "process_ccdi_model ns rs pd = join ''\<newline>'' ((?hd @ map ?f ns') @ [?f nd])"
    unfolding process_ccdi_model_def snoc by simp
  then have "suffix (?f nd) (process_ccdi_model ns rs pd)"
    by (simp only: suffix_join_last)
  moreover have "suffix ''}\<newline>'' (?f nd)"
    unfolding nd by (simp only: prod.case generate_node_type_end)
  ultimately show ?thesis by (rule suffix_order.trans [rotated])
qed

text \<open>
  C8, as claimed: every assembled document would list the type blocks in the
  lexicographic order of their identifiers and end with exactly one newline. The plain
  variant, given the node types \<open>study\<close> and \<open>sample\<close> in that order, prints \<open>study\<close>
  before \<open>sample\<close>, and its output ends with an empty line.
\<close>

theorem plain_document_unsorted:
  "main_output [(''study'', []), (''sample'', [])] [] Map.empty
   = ''#graphql\<newline>\<newline># Type for field count results\<newline>type FieldCount {\<newline>  field: String!\<newline>  count: Int!\<newline>}\<newline>\<newline>type study {\<newline>}\<newline>\<newline>type sample {\<newline>}\<newline>\<newline>''"
  by code_simp

text \<open>
  C8, amended: the document of the metadata-driven variant is its boilerplate (the format
  marker, the two generator comments, the second carrying the model handle, and the
  two-field \<open>FieldCount\<close> type) followed by one type block per node, each followed by an
  empty line, the nodes in the lexicographic order of their handles, with the trailing
  white space replaced by exactly one newline. The document printed by the plain variant
  keeps the node types in the order of the input and ends with an empty line.
\<close>

theorem generate_schema_document:
  "generate_schema m =
     rstrip (join ''\<newline>''
       (schema_header m @ concat (map (\<lambda>nd. [generate_type_sdl m nd, '''']) (sorted_nodes m)))) @ ''\<newline>''
   \<and> sorted (map node_handle (sorted_nodes m))
   \<and> mset (sorted_nodes m) = mset (nodes m)
   \<and> (\<exists>body. generate_schema m = body @ ''\<newline>'' \<and> body \<noteq> [] \<and> \<not> isspace (last body))
   \<and> main_output ns rs pd =
       join ''\<newline>''
         ([''#graphql'', '''', ''# Type for field count results'', ''type FieldCount {'',
           ''  field: String!'', ''  count: Int!'', ''}'', '''']
          @ map (\<lambda>(node_name, props). generate_node_type node_name props (build_relationship_map rs) pd) ns)
       @ ''\<newline>''
   \<and> suffix ''}\<newline>\<newline>'' (main_output ns rs pd)"
proof -
  have 1: "generate_schema m =
     rstrip (join ''\<newline>''
       (schema_header m @ concat (map (\<lambda>nd. [generate_type_sdl m nd, '''']) (sorted_nodes m)))) @ ''\<newline>''"
    by (simp add: generate_schema_def append_blocks_concat)
  have 2: "sorted (map node_handle (sorted_nodes m))" "mset (sorted_nodes m) = mset (nodes m)"
    by (simp_all add: sorted_nodes_def)
  have 3: "\<exists>body. generate_schema m = body @ ''\<newline>'' \<and> body \<noteq> [] \<and> \<not> isspace (last body)"
    unfolding generate_schema_def using generate_schema_body by blast
  from process_ccdi_model_end [of ns rs pd]
  obtain zs where "process_ccdi_model ns rs pd = zs @ ''}\<newline>''" by (auto simp: suffix_def)
  then have 4: "suffix ''}\<newline>\<newline>'' (main_output ns rs pd)"
    by (simp add: main_output_def suffix_def)
  have 5: "main_output ns rs pd =
       join ''\<newline>''
         ([''#graphql'', '''', ''# Type for field count results'', ''type FieldCount {'',
           ''  field: String!'', ''  count: Int!'', ''}'', '''']
          @ map (\<lambda>(node_name, props). generate_node_type node_name props (build_relationship_map rs) pd) ns)
       @ ''\<newline>''"
    by (simp only: main_output_def process_ccdi_model_def)
  from 1 2 3 4 5 show ?thesis by blast
qed

theorem generate_schema_document_witness:
  "map node_handle (sorted_nodes
      \<lparr>model_handle = ''ccdi'',
       nodes = [\<lparr>node_handle = ''study'', props = []\<rparr>, \<lparr>node_handle = ''sample'', props = []\<rparr>],
       edges = []\<rparr>) = [''sample'', ''study'']
   \<and> generate_schema
      \<lparr>model_handle = ''ccdi'',
       nodes = [\<lparr>node_handle = ''study'', props = []\<rparr>, \<lparr>node_handle = ''sample'', props = []\<rparr>],
       edges = []\<rparr>
   = ''#graphql\<newline>\<newline># Auto-generated from MDF using bento_mdf\<newline># Model Handle: ccdi\<newline>\<newline>type FieldCount {\<newline>  field: String!\<newline>  count: Int!\<newline>}\<newline>\<newline>type sample {\<newline>}\<newline>\<newline>type study {\<newline>}\<newline>''"
proof -
  let ?m = "\<lparr>model_handle = ''ccdi'',
       nodes = [\<lparr>node_handle = ''study'', props = []\<rparr>, \<lparr>node_handle = ''sample'', props = []\<rparr>],
       edges = []\<rparr>"
  have a: "map node_handle (sorted_nodes ?m) = [''sample'', ''study'']" by code_simp
  have b: "rstrip (join ''\<newline>''
       (schema_header ?m @ concat (map (\<lambda>nd. [generate_type_sdl ?m nd, '''']) (sorted_nodes ?m)))) @ ''\<newline>''
     = ''#graphql\<newline>\<newline># Auto-generated from MDF using bento_mdf\<newline># Model Handle: ccdi\<newline>\<newline>type FieldCount {\<newline>  field: String!\<newline>  count: Int!\<newline>}\<newline>\<newline>type sample {\<newline>}\<newline>\<newline>type study {\<newline>}\<newline>''"
    by code_simp
  from generate_schema_document [of ?m]
  have "generate_schema ?m = rstrip (join ''\<newline>''
       (schema_header ?m @ concat (map (\<lambda>nd. [generate_type_sdl ?m nd, '''']) (sorted_nodes ?m)))) @ ''\<newline>''"
    by (rule conjunct1)
  with a b show ?thesis by (simp only:) 
qed

section \<open>The attribute lines of the metadata-driven variant\<close>

text \<open>
  C9. In the metadata-driven variant the attribute lines of a type block, which stand in
  the block between its opening line and its relationship lines, are the rendered
  attributes of the node taken in the lexicographic order of the attribute names: two
  nodes that hold the same attributes in different orders get the same attribute lines.
\<close>

theorem property_lines_sorted:
  assumes "distinct (map fst (props nd))" "mset (props nd') = mset (props nd)"
  shows "(\<exists>ps. mset ps = mset (props nd) \<and> sorted (map fst ps)
            \<and> property_lines nd =
                map (\<lambda>(pname, prop). ''  '' @ safe_name pname @ '': '' @ map_value_domain_to_graphql prop) ps
            \<and> generate_type_sdl m nd =
                join ''\<newline>''
                  ([''type '' @ node_handle nd @ '' {'']
                   @ map (\<lambda>(pname, prop). ''  '' @ safe_name pname @ '': '' @ map_value_domain_to_graphql prop) ps
                   @ relationship_lines m nd @ [''}'']))
         \<and> sorted (map fst (sorted_props nd)) \<and> mset (sorted_props nd) = mset (props nd)
         \<and> property_lines nd' = property_lines nd"
proof -
  from assms(2) have "set (props nd') = set (props nd)" by (rule mset_eq_setD)
  moreover from assms(1) have "inj_on fst (set (props nd))" by (simp add: distinct_map)
  ultimately have inj: "inj_on fst (set (props nd'))" by simp
  have eq: "sort_key fst (props nd') = sort_key fst (props nd)"
    by (rule sort_key_inj_key_eq) (simp_all add: assms(2) inj)
  have "mset (sorted_props nd) = mset (props nd) \<and> sorted (map fst (sorted_props nd))
            \<and> property_lines nd =
                map (\<lambda>(pname, prop). ''  '' @ safe_name pname @ '': '' @ map_value_domain_to_graphql prop) (sorted_props nd)
            \<and> generate_type_sdl m nd =
                join ''\<newline>''
                  ([''type '' @ node_handle nd @ '' {'']
                   @ map (\<lambda>(pname, prop). ''  '' @ safe_name pname @ '': '' @ map_value_domain_to_graphql prop) (sorted_props nd)
                   @ relationship_lines m nd @ [''}''])"
    by (simp add: sorted_props_def property_lines_def generate_type_sdl_def)
  then have ex: "\<exists>ps. mset ps = mset (props nd) \<and> sorted (map fst ps)
            \<and> property_lines nd =
                map (\<lambda>(pname, prop). ''  '' @ safe_name pname @ '': '' @ map_value_domain_to_graphql prop) ps
            \<and> generate_type_sdl m nd =
                join ''\<newline>''
                  ([''type '' @ node_handle nd @ '' {'']
                   @ map (\<lambda>(pname, prop). ''  '' @ safe_name pname @ '': '' @ map_value_domain_to_graphql prop) ps
                   @ relationship_lines m nd @ [''}''])"
    by blast
  from eq have "sorted (map fst (sorted_props nd)) \<and> mset (sorted_props nd) = mset (props nd)
         \<and> property_lines nd' = property_lines nd"
    by (simp add: sorted_props_def property_lines_def)
  with ex show ?thesis by blast
qed

theorem property_lines_sorted_witness:
  "generate_type_sdl \<lparr>model_handle = ''ccdi'', nodes = [], edges = []\<rparr>
     \<lparr>node_handle = ''sample'',
      props = [(''tumor_grade'', \<lparr>value_domain = Some ''value_set'', item_domain = None\<rparr>),
               (''sample_id'', \<lparr>value_domain = Some ''string'', item_domain = None\<rparr>),
               (''age_at_collection'', \<lparr>value_domain = Some ''integer'', item_domain = None\<rparr>)]\<rparr>
   = ''type sample {\<newline>  age_at_collection: Int\<newline>  sample_id: String\<newline>  tumor_grade: String\<newline>}''
   \<and> property_lines
     \<lparr>node_handle = ''sample'',
      props = [(''tumor_grade'', \<lparr>value_domain = Some ''value_set'', item_domain = None\<rparr>),
               (''sample_id'', \<lparr>value_domain = Some ''string'', item_domain = None\<rparr>),
               (''age_at_collection'', \<lparr>value_domain = Some ''integer'', item_domain = None\<rparr>)]\<rparr>
   = [''  age_at_collection: Int'', ''  sample_id: String'', ''  tumor_grade: String'']
   \<and> property_lines
     \<lparr>node_handle = ''sample'',
      props = [(''sample_id'', \<lparr>value_domain = Some ''string'', item_domain = None\<rparr>),
               (''age_at_collection'', \<lparr>value_domain = Some ''integer'', item_domain = None\<rparr>),
               (''tumor_grade'', \<lparr>value_domain = Some ''value_set'', item_domain = None\<rparr>)]\<rparr>
   = [''  age_at_collection: Int'', ''  sample_id: String'', ''  tumor_grade: String'']"
proof -
  let ?a = "(''tumor_grade'', \<lparr>value_domain = Some ''value_set'', item_domain = None\<rparr>)"
  let ?b = "(''sample_id'', \<lparr>value_domain = Some ''string'', item_domain = None\<rparr>)"
  let ?c = "(''age_at_collection'', \<lparr>value_domain = Some ''integer'', item_domain = None\<rparr>)"
  let ?nd = "\<lparr>node_handle = ''sample'', props = [?a, ?b, ?c]\<rparr>"
  let ?nd' = "\<lparr>node_handle = ''sample'', props = [?b, ?c, ?a]\<rparr>"
  let ?m = "\<lparr>model_handle = ''ccdi'', nodes = [], edges = []\<rparr>"
  have d: "distinct (map fst (props ?nd))" by simp
  have m: "mset (props ?nd') = mset (props ?nd)" by simp
  have v: "property_lines ?nd = [''  age_at_collection: Int'', ''  sample_id: String'', ''  tumor_grade: String'']"
    by code_simp
  have g: "generate_type_sdl ?m ?nd
     = ''type sample {\<newline>  age_at_collection: Int\<newline>  sample_id: String\<newline>  tumor_grade: String\<newline>}''"
    by code_simp
  from property_lines_sorted [OF d m, of ?m] have "property_lines ?nd' = property_lines ?nd" by blast
  with v g show ?thesis by simp
qed

end
